theory Spec2Isabelle
  imports Main "HOL-Library.Sublist"
begin

section \<open>Data model\<close>

text \<open>
  The backend (\<^verbatim>\<open>src/unnamed/part_000\<close>) keeps one module-level array,
  \<^verbatim>\<open>cachedHeroes\<close>, fills it from the upstream service letter by letter, and answers
  three routes from it. The records stored are the JSON objects of the upstream service.
  Their shape is fixed here as the handlers use it: an \<^verbatim>\<open>id\<close> compared with
  \<^verbatim>\<open>===\<close> (a JSON string and a JSON number are never equal), a string \<^verbatim>\<open>name\<close>,
  and a \<^verbatim>\<open>biography\<close> object whose \<^verbatim>\<open>alignment\<close> is a string or is missing.
  Strings are lists of 8-bit characters; \<^verbatim>\<open>toLowerCase\<close> is modelled on the ASCII
  letters and leaves every other character as it is.
\<close>

datatype ident = IdStr string | IdNum int

record biography =
  alignment :: "string option"
  publisher :: "string option"

record hero =
  hero_id :: ident
  name :: string
  biography :: biography
  image_url :: "string option"

text \<open>
  The upstream service is reached through \<^verbatim>\<open>axios.get\<close>. A letter search either
  throws (transport error or non-2xx status), or answers without a \<^verbatim>\<open>results\<close>
  field, or answers with a \<^verbatim>\<open>results\<close> array. A lookup by id either throws or
  answers with a body, which may be empty (falsy) or an object with a \<^verbatim>\<open>response\<close>
  field. What the service answers may change over time, so each answer depends on the
  number of upstream calls the process has issued before.
\<close>

datatype search_reply = SearchThrows | SearchNoResults | SearchResults "hero list"

record envelope =
  response :: string
  details :: "hero option"

datatype lookup_reply = LookupThrows | LookupData "envelope option"

record upstream =
  search_letter :: "nat \<Rightarrow> char \<Rightarrow> search_reply"
  lookup_id :: "nat \<Rightarrow> string \<Rightarrow> lookup_reply"

datatype upstream_call = GetSearch char | GetHero string

text \<open>
  The process state: the cache, and the log of the upstream calls issued so far (the log
  is not in the source; it records each \<^verbatim>\<open>axios.get\<close> so that claims about upstream
  calls can be stated).
\<close>

record server =
  cachedHeroes :: "hero list"
  calls :: "upstream_call list"

definition init :: server where
  "init = \<lparr>cachedHeroes = [], calls = []\<rparr>"

text \<open>
  What a handler sends: \<^verbatim>\<open>res.json(...)\<close> with a list or with one upstream body,
  or a status 400 (the spec's InvalidArgument), 404 (NotFound, NotFoundInCatalog) or 500.
\<close>

datatype reply = OkHeroes "hero list" | OkHero envelope | Status400 | Status404 | Status500

section \<open>String helpers of the JavaScript runtime\<close>

definition toLowerChar :: "char \<Rightarrow> char" where
  "toLowerChar c =
     (let n = (of_char c :: nat) in if 65 \<le> n \<and> n \<le> 90 then char_of (n + 32) else c)"

definition toLowerCase :: "string \<Rightarrow> string" where
  "toLowerCase s = map toLowerChar s"

text \<open>\<^verbatim>\<open>s.includes(t)\<close>: scan \<^verbatim>\<open>s\<close> for a position where \<^verbatim>\<open>t\<close> starts.\<close>

fun includes_str :: "string \<Rightarrow> string \<Rightarrow> bool" where
  "includes_str [] t = (t = [])"
| "includes_str (c # cs) t = (prefix t (c # cs) \<or> includes_str cs t)"

text \<open>Truthiness of a value that is a string or \<^verbatim>\<open>undefined\<close>.\<close>

definition truthy :: "string option \<Rightarrow> bool" where
  "truthy v = (case v of None \<Rightarrow> False | Some s \<Rightarrow> s \<noteq> [])"

section \<open>Populating the cache\<close>

text \<open>
  Lines 62--66: the body of the \<^verbatim>\<open>forEach\<close>, and the loop over one letter's
  results.
\<close>

definition pushUnique :: "hero list \<Rightarrow> hero \<Rightarrow> hero list" where
  "pushUnique cache h =
     (if \<not> list_ex (\<lambda>cachedHero. hero_id cachedHero = hero_id h) cache
      then cache @ [h] else cache)"

definition mergeResults :: "hero list \<Rightarrow> hero list \<Rightarrow> hero list" where
  "mergeResults cache results = foldl pushUnique cache results"

text \<open>
  \<^verbatim>\<open>fetchHeroesByLetter\<close> (lines 54--72). The call is issued whatever the API key
  is; a throw anywhere in the \<^verbatim>\<open>try\<close> is caught and logged, and the function returns
  normally.
\<close>

definition fetchHeroesByLetter :: "upstream \<Rightarrow> char \<Rightarrow> server \<Rightarrow> server" where
  "fetchHeroesByLetter up letter s =
     (let r = search_letter up (length (calls s)) letter;
          s1 = s\<lparr>calls := calls s @ [GetSearch letter]\<rparr>
      in case r of
           SearchThrows \<Rightarrow> s1
         | SearchNoResults \<Rightarrow> s1
         | SearchResults results \<Rightarrow>
             if length results > 0
             then s1\<lparr>cachedHeroes := mergeResults (cachedHeroes s1) results\<rparr>
             else s1)"

definition lettersToFetch :: "char list" where
  "lettersToFetch = ''abcdefghijklmnopqrstuvwxyz''"

text \<open>\<^verbatim>\<open>initializeHeroCache\<close> (lines 75--80): the letters in order, one after the other.\<close>

definition sweep :: "upstream \<Rightarrow> char list \<Rightarrow> server \<Rightarrow> server" where
  "sweep up letters s = foldl (\<lambda>st letter. fetchHeroesByLetter up letter st) s letters"

definition initializeHeroCache :: "upstream \<Rightarrow> server \<Rightarrow> server" where
  "initializeHeroCache up s = sweep up lettersToFetch s"

section \<open>The three routes\<close>

text \<open>Lines 94--96: the alignment filter of \<^verbatim>\<open>GET /api/heroes\<close>.\<close>

definition alignmentMatches :: "string \<Rightarrow> hero \<Rightarrow> bool" where
  "alignmentMatches al h =
     (case alignment (biography h) of
        None \<Rightarrow> False
      | Some a \<Rightarrow> a \<noteq> [] \<and> toLowerCase a = toLowerCase al)"

definition filterByAlignment :: "string option \<Rightarrow> hero list \<Rightarrow> hero list" where
  "filterByAlignment al cache =
     (case al of
        None \<Rightarrow> cache
      | Some a \<Rightarrow> if a \<noteq> [] then filter (alignmentMatches a) cache else cache)"

text \<open>
  \<^verbatim>\<open>GET /api/heroes\<close> (lines 83--103), the spec's listHeroes. With records of the
  shape above nothing in its \<^verbatim>\<open>try\<close> throws (\<^verbatim>\<open>fetchHeroesByLetter\<close> catches its
  own errors), so the handler always reaches \<^verbatim>\<open>res.json\<close>.
\<close>

definition listHeroes :: "upstream \<Rightarrow> string option \<Rightarrow> server \<Rightarrow> reply \<times> server" where
  "listHeroes up al s =
     (let s1 = (if length (cachedHeroes s) = 0 then initializeHeroCache up s else s)
      in (OkHeroes (filterByAlignment al (cachedHeroes s1)), s1))"

text \<open>\<^verbatim>\<open>GET /api/superhero\<close> (lines 106--127), the spec's searchByName.\<close>

definition searchByName :: "string option \<Rightarrow> server \<Rightarrow> reply \<times> server" where
  "searchByName nm s =
     (case map_option toLowerCase nm of
        None \<Rightarrow> (Status400, s)
      | Some heroName \<Rightarrow>
          if heroName = [] then (Status400, s)
          else
            (let matchingHeroes =
                   filter (\<lambda>h. includes_str (toLowerCase (name h)) heroName) (cachedHeroes s)
             in if length matchingHeroes > 0 then (OkHeroes matchingHeroes, s)
                else (Status404, s)))"

text \<open>
  \<^verbatim>\<open>GET /api/superhero/:id\<close> (lines 130--150), the spec's getById. The API key comes
  from the process environment and may be unset.
\<close>

definition getById :: "string option \<Rightarrow> upstream \<Rightarrow> string \<Rightarrow> server \<Rightarrow> reply \<times> server" where
  "getById apiKey up heroId s =
     (if \<not> truthy apiKey then (Status500, s)
      else
        (let r = lookup_id up (length (calls s)) heroId;
             s1 = s\<lparr>calls := calls s @ [GetHero heroId]\<rparr>
         in case r of
              LookupThrows \<Rightarrow> (Status500, s1)
            | LookupData None \<Rightarrow> (Status404, s1)
            | LookupData (Some d) \<Rightarrow>
                if response d = ''success'' then (OkHero d, s1) else (Status404, s1)))"

text \<open>
  A process serves requests one after the other: each handler runs to its response before
  the next request is taken (handlers interleaved at their \<^verbatim>\<open>await\<close>s are not
  modelled).
\<close>

datatype request = ListHeroes "string option" | SearchByName "string option" | GetById string

fun handle :: "string option \<Rightarrow> upstream \<Rightarrow> request \<Rightarrow> server \<Rightarrow> reply \<times> server" where
  "handle apiKey up (ListHeroes al) s = listHeroes up al s"
| "handle apiKey up (SearchByName nm) s = searchByName nm s"
| "handle apiKey up (GetById heroId) s = getById apiKey up heroId s"

fun serve :: "string option \<Rightarrow> upstream \<Rightarrow> request list \<Rightarrow> server \<Rightarrow> server" where
  "serve apiKey up [] s = s"
| "serve apiKey up (rq # rqs) s = serve apiKey up rqs (snd (handle apiKey up rq s))"

text \<open>
  The answers the upstream service gives to the searches of one sweep that starts after
  \<open>n\<close> earlier calls, in the order of the letters.
\<close>

fun sweepReplies :: "upstream \<Rightarrow> nat \<Rightarrow> char list \<Rightarrow> search_reply list" where
  "sweepReplies up n [] = []"
| "sweepReplies up n (letter # letters) =
     search_letter up n letter # sweepReplies up (Suc n) letters"

definition resultsOf :: "search_reply \<Rightarrow> hero list" where
  "resultsOf r = (case r of SearchResults results \<Rightarrow> results | _ \<Rightarrow> [])"

definition isSearch :: "upstream_call \<Rightarrow> bool" where
  "isSearch c = (case c of GetSearch _ \<Rightarrow> True | GetHero _ \<Rightarrow> False)"

section \<open>The spec's wording of the queries\<close>

text \<open>
  The spec's filter of queryByAlignment, in its own words: the entries whose
  \<^verbatim>\<open>biography.alignment\<close>, lower-cased, equals the requested value lower-cased. It is
  compared with \<open>alignmentMatches\<close>, which is the source's test.
\<close>

definition alignmentEqualsSpec :: "string \<Rightarrow> hero \<Rightarrow> bool" where
  "alignmentEqualsSpec al h =
     (map_option toLowerCase (alignment (biography h)) = Some (toLowerCase al))"

text \<open>
  The spec's "upstream reports no match for that id": the service answered the lookup,
  and the answer is not a success envelope.
\<close>

definition reportsNoMatch :: "lookup_reply \<Rightarrow> bool" where
  "reportsNoMatch r =
     (case r of
        LookupThrows \<Rightarrow> False
      | LookupData None \<Rightarrow> True
      | LookupData (Some d) \<Rightarrow> response d \<noteq> ''success'')"

section \<open>Concrete records, upstream services and states\<close>

definition spiderMan :: hero where
  "spiderMan = \<lparr>hero_id = IdStr ''620'', name = ''Spider-Man'',
     biography = \<lparr>alignment = Some ''good'', publisher = Some ''Marvel Comics''\<rparr>,
     image_url = None\<rparr>"

definition batgirl :: hero where
  "batgirl = \<lparr>hero_id = IdStr ''63'', name = ''Batgirl'',
     biography = \<lparr>alignment = Some ''good'', publisher = Some ''DC Comics''\<rparr>,
     image_url = None\<rparr>"

definition joker :: hero where
  "joker = \<lparr>hero_id = IdStr ''370'', name = ''Joker'',
     biography = \<lparr>alignment = Some ''bad'', publisher = Some ''DC Comics''\<rparr>,
     image_url = None\<rparr>"

definition anonymous :: hero where
  "anonymous = \<lparr>hero_id = IdStr ''51'', name = ''Anonymous'',
     biography = \<lparr>alignment = None, publisher = None\<rparr>, image_url = None\<rparr>"

definition blank :: hero where
  "blank = \<lparr>hero_id = IdStr ''52'', name = ''Blank'',
     biography = \<lparr>alignment = Some [], publisher = None\<rparr>, image_url = None\<rparr>"

definition stranger :: hero where
  "stranger = \<lparr>hero_id = IdStr ''90'', name = ''Stranger'',
     biography = \<lparr>alignment = Some ''-'', publisher = None\<rparr>, image_url = None\<rparr>"

definition abe :: hero where
  "abe = \<lparr>hero_id = IdStr ''2'', name = ''Abe Sapien'',
     biography = \<lparr>alignment = Some ''good'', publisher = Some ''Dark Horse Comics''\<rparr>,
     image_url = None\<rparr>"

definition abeTwin :: hero where
  "abeTwin = \<lparr>hero_id = IdStr ''2'', name = ''Abraham Sapien'',
     biography = \<lparr>alignment = Some ''good'', publisher = Some ''Dark Horse Comics''\<rparr>,
     image_url = None\<rparr>"

definition notFoundBody :: envelope where
  "notFoundBody = \<lparr>response = ''error'', details = None\<rparr>"

definition spiderManBody :: envelope where
  "spiderManBody = \<lparr>response = ''success'', details = Some spiderMan\<rparr>"

text \<open>Total upstream unavailability: every call throws.\<close>

definition outage :: upstream where
  "outage = \<lparr>search_letter = (\<lambda>n letter. SearchThrows), lookup_id = (\<lambda>n heroId. LookupThrows)\<rparr>"

text \<open>A service that is down for the first 26 calls and answers afterwards.\<close>

definition recovering :: upstream where
  "recovering =
     \<lparr>search_letter = (\<lambda>n letter.
        if n < 26 then SearchThrows
        else if letter = CHR ''s'' then SearchResults [spiderMan]
        else SearchNoResults),
      lookup_id = (\<lambda>n heroId. LookupThrows)\<rparr>"

text \<open>A healthy service that knows three heroes.\<close>

definition healthy :: upstream where
  "healthy =
     \<lparr>search_letter = (\<lambda>n letter.
        if letter = CHR ''b'' then SearchResults [batgirl]
        else if letter = CHR ''j'' then SearchResults [joker]
        else if letter = CHR ''s'' then SearchResults [spiderMan]
        else SearchNoResults),
      lookup_id = (\<lambda>n heroId.
        if heroId = ''620'' then LookupData (Some spiderManBody)
        else LookupData (Some notFoundBody))\<rparr>"

text \<open>Only the search for the letter s answers; the other 25 throw.\<close>

definition onlyS :: upstream where
  "onlyS =
     \<lparr>search_letter = (\<lambda>n letter.
        if letter = CHR ''s'' then SearchResults [spiderMan, batgirl] else SearchThrows),
      lookup_id = (\<lambda>n heroId. LookupThrows)\<rparr>"

text \<open>
  Two letters yield a record with the id 2, under different names; the other letters
  have no results.
\<close>

definition homonyms :: upstream where
  "homonyms =
     \<lparr>search_letter = (\<lambda>n letter.
        if letter = CHR ''a'' then SearchResults [abe]
        else if letter = CHR ''s'' then SearchResults [abeTwin, spiderMan]
        else SearchNoResults),
      lookup_id = (\<lambda>n heroId. LookupThrows)\<rparr>"

text \<open>Only the search for the letter s answers, with no record; the other 25 throw.\<close>

definition emptyAnswer :: upstream where
  "emptyAnswer =
     \<lparr>search_letter = (\<lambda>n letter.
        if letter = CHR ''s'' then SearchResults [] else SearchThrows),
      lookup_id = (\<lambda>n heroId. LookupThrows)\<rparr>"

text \<open>A process whose cache has been populated by one sweep.\<close>

definition gotham :: server where
  "gotham = \<lparr>cachedHeroes = [batgirl, joker, spiderMan, anonymous, blank, stranger],
              calls = map GetSearch lettersToFetch\<rparr>"

section \<open>The merge step\<close>

lemma pushUnique_ids:
  "map hero_id (pushUnique cache h) =
     (if hero_id h \<in> set (map hero_id cache) then map hero_id cache
      else map hero_id cache @ [hero_id h])"
  by (auto simp: pushUnique_def list_ex_iff image_iff) metis

lemma pushUnique_distinct:
  "distinct (map hero_id cache) \<Longrightarrow> distinct (map hero_id (pushUnique cache h))"
  by (simp add: pushUnique_ids)

lemma mergeResults_distinct:
  "distinct (map hero_id cache) \<Longrightarrow> distinct (map hero_id (mergeResults cache results))"
  unfolding mergeResults_def
  by (induction results arbitrary: cache) (simp_all add: pushUnique_distinct)

lemma find_append:
  "find P (xs @ ys) = (case find P xs of None \<Rightarrow> find P ys | Some x \<Rightarrow> Some x)"
  by (induction xs) simp_all

lemma pushUnique_find:
  "find (\<lambda>c. hero_id c = i) (pushUnique cache h) = find (\<lambda>c. hero_id c = i) (cache @ [h])"
proof (cases "list_ex (\<lambda>c. hero_id c = hero_id h) cache")
  case False
  then show ?thesis by (simp add: pushUnique_def)
next
  case True
  then obtain c where c: "c \<in> set cache" "hero_id c = hero_id h"
    by (auto simp: list_ex_iff)
  show ?thesis
  proof (cases "hero_id h = i")
    case same: True
    with c have "find (\<lambda>c. hero_id c = i) cache \<noteq> None"
      by (auto simp: find_None_iff)
    with True show ?thesis
      by (auto simp: pushUnique_def find_append)
  next
    case False
    with True show ?thesis
      by (auto simp: pushUnique_def find_append split: option.splits)
  qed
qed

lemma mergeResults_find:
  "find (\<lambda>c. hero_id c = i) (mergeResults cache results) =
   find (\<lambda>c. hero_id c = i) (cache @ results)"
  unfolding mergeResults_def
proof (induction results arbitrary: cache)
  case Nil
  show ?case by simp
next
  case (Cons h results)
  have "find (\<lambda>c. hero_id c = i) (foldl pushUnique (pushUnique cache h) results) =
        find (\<lambda>c. hero_id c = i) (pushUnique cache h @ results)"
    using Cons.IH by simp
  also have "\<dots> = find (\<lambda>c. hero_id c = i) ((cache @ [h]) @ results)"
    by (simp only: find_append [of _ _ results] pushUnique_find)
  finally show ?case by simp
qed

lemma mergeAll_distinct:
  "distinct (map hero_id cache) \<Longrightarrow> distinct (map hero_id (foldl mergeResults cache rss))"
  by (induction rss arbitrary: cache) (simp_all add: mergeResults_distinct)

lemma mergeAll_find:
  "find (\<lambda>c. hero_id c = i) (foldl mergeResults cache rss) =
   find (\<lambda>c. hero_id c = i) (cache @ concat rss)"
proof (induction rss arbitrary: cache)
  case Nil
  show ?case by simp
next
  case (Cons rs rss)
  have "find (\<lambda>c. hero_id c = i) (foldl mergeResults (mergeResults cache rs) rss) =
        find (\<lambda>c. hero_id c = i) (mergeResults cache rs @ concat rss)"
    using Cons.IH by simp
  also have "\<dots> = find (\<lambda>c. hero_id c = i) ((cache @ rs) @ concat rss)"
    by (simp only: find_append [of _ _ "concat rss"] mergeResults_find)
  finally show ?case by simp
qed

section \<open>The sweep and the handlers, step by step\<close>

lemma mergeResults_Nil: "mergeResults cache [] = cache"
  by (simp add: mergeResults_def)

lemma fetch_calls: "calls (fetchHeroesByLetter up letter s) = calls s @ [GetSearch letter]"
  by (simp add: fetchHeroesByLetter_def Let_def split: search_reply.splits)

lemma fetch_cache:
  "cachedHeroes (fetchHeroesByLetter up letter s) =
     mergeResults (cachedHeroes s) (resultsOf (search_letter up (length (calls s)) letter))"
  by (auto simp: fetchHeroesByLetter_def Let_def resultsOf_def mergeResults_Nil
      split: search_reply.splits)

lemma sweep_Nil: "sweep up [] s = s"
  by (simp add: sweep_def)

lemma sweep_Cons: "sweep up (l # ls) s = sweep up ls (fetchHeroesByLetter up l s)"
  by (simp add: sweep_def)

lemma sweep_calls: "calls (sweep up ls s) = calls s @ map GetSearch ls"
  by (induction ls arbitrary: s) (simp_all add: sweep_Nil sweep_Cons fetch_calls)

lemma sweep_cache:
  "cachedHeroes (sweep up ls s) =
     foldl mergeResults (cachedHeroes s) (map resultsOf (sweepReplies up (length (calls s)) ls))"
  by (induction ls arbitrary: s) (simp_all add: sweep_Nil sweep_Cons fetch_calls fetch_cache)

lemma pushUnique_prefix: "prefix cache (pushUnique cache h)"
  by (simp add: pushUnique_def)

lemma mergeResults_prefix: "prefix cache (mergeResults cache results)"
  unfolding mergeResults_def
proof (induction results arbitrary: cache)
  case Nil
  show ?case by simp
next
  case (Cons h results)
  have "prefix cache (pushUnique cache h)" by (rule pushUnique_prefix)
  also have "prefix (pushUnique cache h) (foldl pushUnique (pushUnique cache h) results)"
    by (rule Cons.IH)
  finally show ?case by simp
qed

lemma mergeAll_prefix: "prefix cache (foldl mergeResults cache rss)"
proof (induction rss arbitrary: cache)
  case Nil
  show ?case by simp
next
  case (Cons rs rss)
  have "prefix cache (mergeResults cache rs)" by (rule mergeResults_prefix)
  also have "prefix (mergeResults cache rs) (foldl mergeResults (mergeResults cache rs) rss)"
    by (rule Cons.IH)
  finally show ?case by simp
qed

lemma sweep_prefix: "prefix (cachedHeroes s) (cachedHeroes (sweep up ls s))"
  by (simp add: sweep_cache mergeAll_prefix)

lemma mergeResults_fresh:
  "distinct (map hero_id (cache @ results)) \<Longrightarrow> mergeResults cache results = cache @ results"
  unfolding mergeResults_def
proof (induction results arbitrary: cache)
  case Nil
  show ?case by simp
next
  case (Cons h results)
  from Cons.prems have "hero_id h \<notin> set (map hero_id cache)" by simp
  then have new: "pushUnique cache h = cache @ [h]"
    by (simp add: pushUnique_def list_ex_iff image_iff) metis
  from Cons.prems have "distinct (map hero_id ((cache @ [h]) @ results))" by simp
  then have "foldl pushUnique (cache @ [h]) results = (cache @ [h]) @ results"
    by (rule Cons.IH)
  with new show ?case by simp
qed

lemma mergeAll_empties: "foldl mergeResults cache (replicate k []) = cache"
  by (induction k) (simp_all add: mergeResults_Nil)

lemma listHeroes_state:
  "snd (listHeroes up al s) = (if cachedHeroes s = [] then initializeHeroCache up s else s)"
  by (simp add: listHeroes_def Let_def)

lemma listHeroes_reply:
  "fst (listHeroes up al s) = OkHeroes (filterByAlignment al (cachedHeroes (snd (listHeroes up al s))))"
  by (simp add: listHeroes_def Let_def)

lemma searchByName_state: "snd (searchByName nm s) = s"
  by (simp add: searchByName_def Let_def split: option.splits)

lemma getById_cache: "cachedHeroes (snd (getById apiKey up heroId s)) = cachedHeroes s"
  by (simp add: getById_def Let_def split: lookup_reply.splits option.splits)

lemma getById_calls:
  "calls (snd (getById apiKey up heroId s)) =
     (if truthy apiKey then calls s @ [GetHero heroId] else calls s)"
  by (simp add: getById_def Let_def split: lookup_reply.splits option.splits)

lemma handle_prefix: "prefix (cachedHeroes s) (cachedHeroes (snd (handle apiKey up rq s)))"
  by (cases rq)
     (simp_all add: listHeroes_state initializeHeroCache_def sweep_prefix searchByName_state
        getById_cache)

lemma handle_ready_cache:
  "cachedHeroes s \<noteq> [] \<Longrightarrow> cachedHeroes (snd (handle apiKey up rq s)) = cachedHeroes s"
  by (cases rq) (simp_all add: listHeroes_state searchByName_state getById_cache)

lemma handle_ready_searches:
  "cachedHeroes s \<noteq> [] \<Longrightarrow>
     filter isSearch (calls (snd (handle apiKey up rq s))) = filter isSearch (calls s)"
  by (cases rq) (simp_all add: listHeroes_state searchByName_state getById_calls isSearch_def)

lemma serve_prefix: "prefix (cachedHeroes s) (cachedHeroes (serve apiKey up rqs s))"
proof (induction rqs arbitrary: s)
  case Nil
  show ?case by simp
next
  case (Cons rq rqs)
  have "prefix (cachedHeroes s) (cachedHeroes (snd (handle apiKey up rq s)))"
    by (rule handle_prefix)
  also have "prefix (cachedHeroes (snd (handle apiKey up rq s)))
               (cachedHeroes (serve apiKey up rqs (snd (handle apiKey up rq s))))"
    by (rule Cons.IH)
  finally show ?case by simp
qed

lemma serve_ready:
  "cachedHeroes s \<noteq> [] \<Longrightarrow>
     cachedHeroes (serve apiKey up rqs s) = cachedHeroes s \<and>
     filter isSearch (calls (serve apiKey up rqs s)) = filter isSearch (calls s)"
proof (induction rqs arbitrary: s)
  case Nil
  show ?case by simp
next
  case (Cons rq rqs)
  let ?s1 = "snd (handle apiKey up rq s)"
  from Cons.prems have c: "cachedHeroes ?s1 = cachedHeroes s"
    and l: "filter isSearch (calls ?s1) = filter isSearch (calls s)"
    by (simp_all add: handle_ready_cache handle_ready_searches)
  from Cons.prems c have "cachedHeroes ?s1 \<noteq> []" by simp
  from Cons.IH [OF this] c l show ?case by simp
qed

lemma includes_str_sublist: "includes_str s t = sublist t s"
  by (induction s) (simp_all add: sublist_Cons_right)

lemma toLowerCase_Nil_iff: "toLowerCase s = [] \<longleftrightarrow> s = []"
  by (simp add: toLowerCase_def)

lemma alignmentMatches_spec: "a \<noteq> [] \<Longrightarrow> alignmentMatches a h = alignmentEqualsSpec a h"
  using toLowerCase_Nil_iff [of a]
  by (cases "alignment (biography h)")
     (auto simp: alignmentMatches_def alignmentEqualsSpec_def toLowerCase_def)

lemma alignmentMatches_lower:
  "toLowerCase a = toLowerCase b \<Longrightarrow> alignmentMatches a = alignmentMatches b"
  by (rule ext) (simp add: alignmentMatches_def split: option.splits)

lemma initializeHeroCache_calls:
  "calls (initializeHeroCache up s) = calls s @ map GetSearch lettersToFetch"
  by (simp add: initializeHeroCache_def sweep_calls)

lemma initializeHeroCache_cache:
  "cachedHeroes (initializeHeroCache up s) =
     foldl mergeResults (cachedHeroes s)
       (map resultsOf (sweepReplies up (length (calls s)) lettersToFetch))"
  by (simp add: initializeHeroCache_def sweep_cache)

lemma resultsOf_simps:
  "resultsOf SearchThrows = []" "resultsOf SearchNoResults = []"
  "resultsOf (SearchResults rs) = rs"
  by (simp_all add: resultsOf_def)

lemma merge_one_answer:
  "foldl mergeResults cache
     (map resultsOf (replicate k SearchThrows @ SearchResults rs # replicate m SearchThrows)) =
   mergeResults cache rs"
  by (simp add: resultsOf_simps mergeAll_empties)

lemma filterByAlignment_given:
  "a \<noteq> [] \<Longrightarrow> filterByAlignment (Some a) cat = filter (alignmentEqualsSpec a) cat"
  by (simp add: filterByAlignment_def alignmentMatches_spec cong: filter_cong)

lemma filterByAlignment_lower:
  "toLowerCase a = toLowerCase b \<Longrightarrow>
     filterByAlignment (Some a) cat = filterByAlignment (Some b) cat"
  using toLowerCase_Nil_iff [of a] toLowerCase_Nil_iff [of b]
  by (auto simp: filterByAlignment_def alignmentMatches_lower [of a b])

lemma no_alignment_no_match:
  "alignment (biography h) = None \<or> alignment (biography h) = Some [] \<Longrightarrow>
     \<not> alignmentMatches a h"
  by (auto simp: alignmentMatches_def)

lemma sweep_distinct:
  "distinct (map hero_id (cachedHeroes s)) \<Longrightarrow>
     distinct (map hero_id (cachedHeroes (sweep up ls s)))"
  by (simp add: sweep_cache mergeAll_distinct)

lemma handle_distinct:
  "distinct (map hero_id (cachedHeroes s)) \<Longrightarrow>
     distinct (map hero_id (cachedHeroes (snd (handle apiKey up rq s))))"
  by (cases rq)
     (simp_all add: listHeroes_state initializeHeroCache_def sweep_distinct searchByName_state
        getById_cache)

lemma serve_distinct:
  "distinct (map hero_id (cachedHeroes s)) \<Longrightarrow>
     distinct (map hero_id (cachedHeroes (serve apiKey up rqs s)))"
  by (induction rqs arbitrary: s) (simp_all add: handle_distinct)

lemma sweep_find:
  "find (\<lambda>r. hero_id r = i) (cachedHeroes (sweep up letters s)) =
   find (\<lambda>r. hero_id r = i)
     (cachedHeroes s @ concat (map resultsOf (sweepReplies up (length (calls s)) letters)))"
  by (simp only: sweep_cache mergeAll_find)

lemma mergeResults_nonempty: "results \<noteq> [] \<Longrightarrow> mergeResults [] results \<noteq> []"
proof (cases results)
  case Nil
  then show "results \<noteq> [] \<Longrightarrow> mergeResults [] results \<noteq> []" by simp
next
  case (Cons h rest)
  have "prefix (pushUnique [] h) (mergeResults (pushUnique [] h) rest)"
    by (rule mergeResults_prefix)
  then have "prefix [h] (mergeResults [] (h # rest))"
    by (simp add: mergeResults_def pushUnique_def)
  with Cons show ?thesis by auto
qed

lemma listHeroes_resweeps:
  "cachedHeroes s = [] \<Longrightarrow>
     calls (snd (listHeroes up al s)) = calls s @ map GetSearch lettersToFetch"
  by (simp add: listHeroes_state initializeHeroCache_calls)

lemma listHeroes_empty_is_omitted: "listHeroes up (Some []) s = listHeroes up None s"
  by (simp add: listHeroes_def filterByAlignment_def)

section \<open>The lifecycle of the cache\<close>

text \<open>
  Claim C1, as the code has it. The source keeps no Ready flag: the handler of
  \<^verbatim>\<open>GET /api/heroes\<close> sweeps whenever \<^verbatim>\<open>cachedHeroes.length === 0\<close>. So the
  populated state is terminal once the cache holds at least one record: from then on no
  sequence of requests changes the cache or issues another letter search. In every state,
  requests only ever append to the cache (nothing is removed or reordered). And whenever
  the cache is empty, also after a sweep that stored nothing, \<^verbatim>\<open>GET /api/heroes\<close>
  runs the 26-letter sweep.
\<close>

theorem ready_terminal_once_nonempty:
  "(cachedHeroes s \<noteq> [] \<longrightarrow>
      cachedHeroes (serve apiKey up rqs s) = cachedHeroes s \<and>
      filter isSearch (calls (serve apiKey up rqs s)) = filter isSearch (calls s)) \<and>
   prefix (cachedHeroes s) (cachedHeroes (serve apiKey up rqs s)) \<and>
   (cachedHeroes s0 = [] \<longrightarrow>
      snd (listHeroes up al s0) = initializeHeroCache up s0 \<and>
      calls (snd (listHeroes up al s0)) = calls s0 @ map GetSearch lettersToFetch)"
  by (simp add: serve_ready serve_prefix listHeroes_state initializeHeroCache_calls)

text \<open>
  The theorem at a populated process that serves four requests, and at a fresh process.
\<close>

theorem ready_terminal_once_nonempty_witness:
  "cachedHeroes gotham \<noteq> [] \<and>
   cachedHeroes
     (serve (Some ''key'') healthy
        [ListHeroes None, SearchByName (Some ''man''), GetById ''620'', ListHeroes (Some ''bad'')]
        gotham) = cachedHeroes gotham \<and>
   filter isSearch
     (calls (serve (Some ''key'') healthy
        [ListHeroes None, SearchByName (Some ''man''), GetById ''620'', ListHeroes (Some ''bad'')]
        gotham)) = filter isSearch (calls gotham) \<and>
   cachedHeroes init = [] \<and>
   calls (snd (listHeroes healthy None init)) = map GetSearch lettersToFetch"
proof -
  have ne: "cachedHeroes gotham \<noteq> []" by (simp add: gotham_def)
  have em: "cachedHeroes init = []" "calls init = []" by (simp_all add: init_def)
  show ?thesis
    using ready_terminal_once_nonempty
      [of gotham "Some ''key''" healthy
        "[ListHeroes None, SearchByName (Some ''man''), GetById ''620'', ListHeroes (Some ''bad'')]"
        init None] ne em
    by (auto simp del: serve.simps)
qed

text \<open>
  Claim C1 as the spec states it fails when the first sweep stores nothing. With a service
  that is down during the first sweep, the first \<^verbatim>\<open>GET /api/heroes\<close> issues the 26
  searches and leaves the cache empty; the second one issues 26 more searches and
  changes the cache.
\<close>

theorem ready_not_terminal_when_empty:
  "cachedHeroes (snd (listHeroes recovering None init)) = [] \<and>
   calls (snd (listHeroes recovering None init)) = map GetSearch lettersToFetch \<and>
   calls (snd (listHeroes recovering None (snd (listHeroes recovering None init)))) =
     map GetSearch lettersToFetch @ map GetSearch lettersToFetch \<and>
   cachedHeroes (snd (listHeroes recovering None (snd (listHeroes recovering None init)))) =
     [spiderMan]"
  by code_simp

text \<open>
  Claim C2: every query, searchByName included, runs the sweep first when the cache has
  never been populated. \<^verbatim>\<open>GET /api/superhero\<close> does not: on a fresh process it
  answers 404 for "man" and issues no upstream call, although the same search finds
  Spider-Man once \<^verbatim>\<open>GET /api/heroes\<close> has populated the cache.
\<close>

theorem searchByName_skips_sweep:
  "searchByName (Some ''man'') init = (Status404, init) \<and>
   fst (listHeroes healthy None init) = OkHeroes [batgirl, joker, spiderMan] \<and>
   fst (searchByName (Some ''man'') (snd (listHeroes healthy None init))) = OkHeroes [spiderMan]"
  by code_simp

section \<open>Deduplication\<close>

text \<open>
  Claim C3. A sweep over any letters, from any state, merges the results of the answers
  in the order of the letters. If no two entries of the cache shared an id before, none do
  after; and for every id the entry the cache holds after the sweep is the first record
  with that id in the cache followed by the answers' records in order (none exactly when
  there is no such record). So for a cache filled by \<^verbatim>\<open>GET /api/heroes\<close> from empty,
  the entry for an id is the record merged first, and later records with that id are
  discarded. In every state a process reaches from its start no two cache entries share
  an id. The same two facts hold of the merge loop alone, for any lists of results.
\<close>

theorem merge_dedup_first_seen:
  "(distinct (map hero_id (cachedHeroes s)) \<longrightarrow>
      distinct (map hero_id (cachedHeroes (sweep up letters s)))) \<and>
   find (\<lambda>r. hero_id r = i) (cachedHeroes (sweep up letters s)) =
     find (\<lambda>r. hero_id r = i)
       (cachedHeroes s @ concat (map resultsOf (sweepReplies up (length (calls s)) letters))) \<and>
   (cachedHeroes s = [] \<longrightarrow>
      distinct (map hero_id (cachedHeroes (snd (listHeroes up al s)))) \<and>
      find (\<lambda>r. hero_id r = i) (cachedHeroes (snd (listHeroes up al s))) =
        find (\<lambda>r. hero_id r = i)
          (concat (map resultsOf (sweepReplies up (length (calls s)) lettersToFetch)))) \<and>
   distinct (map hero_id (cachedHeroes (serve apiKey up rqs init))) \<and>
   distinct (map hero_id (foldl mergeResults [] rss)) \<and>
   find (\<lambda>r. hero_id r = i) (foldl mergeResults [] rss) = find (\<lambda>r. hero_id r = i) (concat rss)"
proof -
  have "cachedHeroes s = [] \<longrightarrow>
      distinct (map hero_id (cachedHeroes (snd (listHeroes up al s)))) \<and>
      find (\<lambda>r. hero_id r = i) (cachedHeroes (snd (listHeroes up al s))) =
        find (\<lambda>r. hero_id r = i)
          (concat (map resultsOf (sweepReplies up (length (calls s)) lettersToFetch)))"
    using sweep_distinct [of s up lettersToFetch] sweep_find [of i up lettersToFetch s]
    by (simp add: listHeroes_state initializeHeroCache_def)
  moreover have "distinct (map hero_id (cachedHeroes (serve apiKey up rqs init)))"
    using serve_distinct [of init apiKey up rqs] by (simp add: init_def)
  moreover have "distinct (map hero_id (foldl mergeResults [] rss))"
    using mergeAll_distinct [of "[]" rss] by simp
  moreover have "find (\<lambda>r. hero_id r = i) (foldl mergeResults [] rss) =
      find (\<lambda>r. hero_id r = i) (concat rss)"
    using mergeAll_find [of i "[]" rss] by simp
  ultimately show ?thesis
    using sweep_distinct [of s up letters] sweep_find [of i up letters s] by blast
qed

text \<open>
  The letters a and s both yield a record with the id 2, under different names: after
  the sweep of a fresh process the cache holds the one from a, merged first.
\<close>

theorem merge_dedup_first_seen_witness:
  "cachedHeroes init = [] \<and>
   concat (map resultsOf (sweepReplies homonyms (length (calls init)) lettersToFetch)) =
     [abe, abeTwin, spiderMan] \<and>
   hero_id abe = hero_id abeTwin \<and> name abe \<noteq> name abeTwin \<and>
   cachedHeroes (snd (listHeroes homonyms None init)) = [abe, spiderMan] \<and>
   cachedHeroes (sweep homonyms lettersToFetch init) = [abe, spiderMan] \<and>
   distinct (map hero_id (cachedHeroes (snd (listHeroes homonyms None init)))) \<and>
   find (\<lambda>r. hero_id r = IdStr ''2'') (cachedHeroes (snd (listHeroes homonyms None init))) =
     Some abe \<and>
   find (\<lambda>r. hero_id r = IdStr ''2'') (cachedHeroes (sweep homonyms lettersToFetch init)) =
     Some abe"
proof -
  have a: "cachedHeroes init = []" by (simp add: init_def)
  have b: "concat (map resultsOf (sweepReplies homonyms (length (calls init)) lettersToFetch)) =
     [abe, abeTwin, spiderMan]"
    by code_simp
  have c: "hero_id abe = hero_id abeTwin" "name abe \<noteq> name abeTwin" by code_simp+
  have d: "cachedHeroes (snd (listHeroes homonyms None init)) = [abe, spiderMan]"
    "cachedHeroes (sweep homonyms lettersToFetch init) = [abe, spiderMan]"
    by code_simp+
  have e: "find (\<lambda>r. hero_id r = IdStr ''2'') [abe, abeTwin, spiderMan] = Some abe"
    by code_simp
  note t = merge_dedup_first_seen
    [of init homonyms lettersToFetch "IdStr ''2''" None None "[]" "[]"]
  from t a have f: "distinct (map hero_id (cachedHeroes (snd (listHeroes homonyms None init))))"
    by blast
  from t a have "find (\<lambda>r. hero_id r = IdStr ''2'')
      (cachedHeroes (snd (listHeroes homonyms None init))) =
      find (\<lambda>r. hero_id r = IdStr ''2'')
        (concat (map resultsOf (sweepReplies homonyms (length (calls init)) lettersToFetch)))"
    by blast
  with b e have g: "find (\<lambda>r. hero_id r = IdStr ''2'')
      (cachedHeroes (snd (listHeroes homonyms None init))) = Some abe"
    by simp
  from t have "find (\<lambda>r. hero_id r = IdStr ''2'') (cachedHeroes (sweep homonyms lettersToFetch init)) =
     find (\<lambda>r. hero_id r = IdStr ''2'')
       (cachedHeroes init @
        concat (map resultsOf (sweepReplies homonyms (length (calls init)) lettersToFetch)))"
    by blast
  with a b e have h: "find (\<lambda>r. hero_id r = IdStr ''2'')
      (cachedHeroes (sweep homonyms lettersToFetch init)) = Some abe"
    by simp
  from a b c d f g h show ?thesis by blast
qed

section \<open>Failures of the upstream service\<close>

text \<open>
  Claim C4, as the code has it. Start from an empty cache; let the sweep's 26 searches
  answer so that one of them (the \<open>k\<close>-th) returns the records \<open>rs\<close>, with pairwise
  distinct ids as the spec's primary key has them, and the other 25 throw. Then
  \<^verbatim>\<open>GET /api/heroes\<close> attempts all 26 letters, answers 200 with the (filtered) records
  \<open>rs\<close>, and the cache holds exactly \<open>rs\<close>. When \<open>rs\<close> has at least one record the
  cache is ready for good: whatever requests follow, it stays \<open>rs\<close> and no further letter
  search is issued. When \<open>rs\<close> is empty the cache stays empty and the next
  \<^verbatim>\<open>GET /api/heroes\<close> runs the 26 searches again.
\<close>

theorem partial_failure_resilience:
  assumes "cachedHeroes s = []"
    and "k \<le> 25"
    and "sweepReplies up (length (calls s)) lettersToFetch =
           replicate k SearchThrows @ SearchResults rs # replicate (25 - k) SearchThrows"
    and "distinct (map hero_id rs)"
  shows "fst (listHeroes up al s) = OkHeroes (filterByAlignment al rs) \<and>
         calls (snd (listHeroes up al s)) = calls s @ map GetSearch lettersToFetch \<and>
         cachedHeroes (snd (listHeroes up al s)) = rs \<and>
         (rs \<noteq> [] \<longrightarrow>
            cachedHeroes (serve apiKey up rqs (snd (listHeroes up al s))) = rs \<and>
            filter isSearch (calls (serve apiKey up rqs (snd (listHeroes up al s)))) =
              filter isSearch (calls (snd (listHeroes up al s)))) \<and>
         (rs = [] \<longrightarrow>
            calls (snd (listHeroes up al2 (snd (listHeroes up al s)))) =
              calls s @ map GetSearch lettersToFetch @ map GetSearch lettersToFetch)"
proof -
  let ?s1 = "snd (listHeroes up al s)"
  have st: "?s1 = initializeHeroCache up s"
    using assms(1) by (simp add: listHeroes_state)
  have "cachedHeroes (initializeHeroCache up s) = mergeResults [] rs"
    using assms(1,3) by (simp only: initializeHeroCache_cache merge_one_answer)
  moreover have "mergeResults [] rs = rs"
    using mergeResults_fresh [of "[]" rs] assms(4) by simp
  ultimately have cache: "cachedHeroes ?s1 = rs" using st by simp
  have log: "calls ?s1 = calls s @ map GetSearch lettersToFetch"
    using st by (simp add: initializeHeroCache_calls)
  have reply: "fst (listHeroes up al s) = OkHeroes (filterByAlignment al rs)"
    using listHeroes_reply [of up al s] cache by simp
  have ready: "rs \<noteq> [] \<longrightarrow>
            cachedHeroes (serve apiKey up rqs ?s1) = rs \<and>
            filter isSearch (calls (serve apiKey up rqs ?s1)) = filter isSearch (calls ?s1)"
    using serve_ready [of ?s1 apiKey up rqs] cache by simp
  have again: "rs = [] \<longrightarrow>
            calls (snd (listHeroes up al2 ?s1)) =
              calls s @ map GetSearch lettersToFetch @ map GetSearch lettersToFetch"
    using listHeroes_resweeps [of ?s1 up al2] cache log by simp
  from reply log cache ready again show ?thesis by blast
qed

text \<open>
  The theorem at a process start where only the search for the letter s (the 19th)
  answers: once with two records, followed by three more requests, and once with none,
  followed by a second \<^verbatim>\<open>GET /api/heroes\<close>.
\<close>

theorem partial_failure_resilience_witness:
  "cachedHeroes init = [] \<and> (18::nat) \<le> 25 \<and>
   sweepReplies onlyS (length (calls init)) lettersToFetch =
     replicate 18 SearchThrows @ SearchResults [spiderMan, batgirl] # replicate (25 - 18) SearchThrows \<and>
   distinct (map hero_id [spiderMan, batgirl]) \<and> [spiderMan, batgirl] \<noteq> [] \<and>
   fst (listHeroes onlyS None init) = OkHeroes [spiderMan, batgirl] \<and>
   cachedHeroes (snd (listHeroes onlyS None init)) = [spiderMan, batgirl] \<and>
   calls (snd (listHeroes onlyS None init)) = map GetSearch lettersToFetch \<and>
   cachedHeroes
     (serve (Some ''key'') onlyS [ListHeroes (Some ''bad''), SearchByName (Some ''x''), GetById ''1'']
        (snd (listHeroes onlyS None init))) = [spiderMan, batgirl] \<and>
   filter isSearch
     (calls (serve (Some ''key'') onlyS
        [ListHeroes (Some ''bad''), SearchByName (Some ''x''), GetById ''1'']
        (snd (listHeroes onlyS None init)))) = map GetSearch lettersToFetch \<and>
   sweepReplies emptyAnswer (length (calls init)) lettersToFetch =
     replicate 18 SearchThrows @ SearchResults [] # replicate (25 - 18) SearchThrows \<and>
   fst (listHeroes emptyAnswer None init) = OkHeroes [] \<and>
   calls (snd (listHeroes emptyAnswer None (snd (listHeroes emptyAnswer None init)))) =
     map GetSearch lettersToFetch @ map GetSearch lettersToFetch"
proof -
  have a: "cachedHeroes init = []" by (simp add: init_def)
  have a': "calls init = []" by (simp add: init_def)
  have b: "(18::nat) \<le> 25" by simp
  have c: "sweepReplies onlyS (length (calls init)) lettersToFetch =
     replicate 18 SearchThrows @ SearchResults [spiderMan, batgirl] # replicate (25 - 18) SearchThrows"
    by code_simp
  have d: "distinct (map hero_id [spiderMan, batgirl])" by code_simp
  have e: "filterByAlignment None [spiderMan, batgirl] = [spiderMan, batgirl]"
    "filterByAlignment None [] = []"
    by (simp_all add: filterByAlignment_def)
  have ne: "[spiderMan, batgirl] \<noteq> []" by simp
  have isS: "filter isSearch (map GetSearch lettersToFetch) = map GetSearch lettersToFetch"
    by code_simp
  note t = partial_failure_resilience [OF a b c d, of None "Some ''key''"
      "[ListHeroes (Some ''bad''), SearchByName (Some ''x''), GetById ''1'']" None]
  from t e have r1: "fst (listHeroes onlyS None init) = OkHeroes [spiderMan, batgirl]"
    by simp
  from t have r2: "cachedHeroes (snd (listHeroes onlyS None init)) = [spiderMan, batgirl]"
    by blast
  from t a' have r3: "calls (snd (listHeroes onlyS None init)) = map GetSearch lettersToFetch"
    by simp
  from t ne have r4: "cachedHeroes
     (serve (Some ''key'') onlyS [ListHeroes (Some ''bad''), SearchByName (Some ''x''), GetById ''1'']
        (snd (listHeroes onlyS None init))) = [spiderMan, batgirl]"
    by blast
  from t ne have "filter isSearch
     (calls (serve (Some ''key'') onlyS
        [ListHeroes (Some ''bad''), SearchByName (Some ''x''), GetById ''1'']
        (snd (listHeroes onlyS None init)))) =
     filter isSearch (calls (snd (listHeroes onlyS None init)))"
    by blast
  with r3 isS have r5: "filter isSearch
     (calls (serve (Some ''key'') onlyS
        [ListHeroes (Some ''bad''), SearchByName (Some ''x''), GetById ''1'']
        (snd (listHeroes onlyS None init)))) = map GetSearch lettersToFetch"
    by simp
  have c0: "sweepReplies emptyAnswer (length (calls init)) lettersToFetch =
     replicate 18 SearchThrows @ SearchResults [] # replicate (25 - 18) SearchThrows"
    by code_simp
  have d0: "distinct (map hero_id ([] :: hero list))" by simp
  note t0 = partial_failure_resilience [OF a b c0 d0, of None None "[]" None]
  from t0 e have r6: "fst (listHeroes emptyAnswer None init) = OkHeroes []" by simp
  from t0 a' have r7:
    "calls (snd (listHeroes emptyAnswer None (snd (listHeroes emptyAnswer None init)))) =
     map GetSearch lettersToFetch @ map GetSearch lettersToFetch"
    by simp
  from a b c d ne r1 r2 r3 r4 r5 c0 r6 r7 show ?thesis by blast
qed

text \<open>
  Claim C4 as the spec states it, "reaches Ready" for every N, fails for N = 0: 25
  searches throw, one answers with an empty \<^verbatim>\<open>results\<close> array, the caller gets the
  empty list, and the cache is as empty as before the sweep, so the next
  \<^verbatim>\<open>GET /api/heroes\<close> sweeps again (52 searches after two requests).
\<close>

theorem partial_failure_empty_answer:
  "cachedHeroes init = [] \<and>
   sweepReplies emptyAnswer (length (calls init)) lettersToFetch =
     replicate 18 SearchThrows @ SearchResults [] # replicate 7 SearchThrows \<and>
   listHeroes emptyAnswer None init =
     (OkHeroes [], \<lparr>cachedHeroes = [], calls = map GetSearch lettersToFetch\<rparr>) \<and>
   calls (snd (listHeroes emptyAnswer None (snd (listHeroes emptyAnswer None init)))) =
     map GetSearch lettersToFetch @ map GetSearch lettersToFetch"
  by code_simp

text \<open>
  Claim C9, as the code has it. When the cache is empty and all 26 searches of the sweep
  throw, \<^verbatim>\<open>GET /api/heroes\<close> still attempts every letter and answers 200 with the
  empty list, whatever the alignment filter; no error reaches the caller. The sweep does
  not leave the cache ready: it stays empty, and the next \<^verbatim>\<open>GET /api/heroes\<close>
  runs the 26 searches again.
\<close>

theorem total_outage_empty_list:
  assumes "cachedHeroes s = []"
    and "sweepReplies up (length (calls s)) lettersToFetch = replicate 26 SearchThrows"
  shows "fst (listHeroes up al s) = OkHeroes [] \<and>
         cachedHeroes (snd (listHeroes up al s)) = [] \<and>
         calls (snd (listHeroes up al s)) = calls s @ map GetSearch lettersToFetch \<and>
         calls (snd (listHeroes up al2 (snd (listHeroes up al s)))) =
           calls s @ map GetSearch lettersToFetch @ map GetSearch lettersToFetch"
proof -
  let ?s1 = "snd (listHeroes up al s)"
  have st: "?s1 = initializeHeroCache up s"
    using assms(1) by (simp add: listHeroes_state)
  have "map resultsOf (replicate 26 SearchThrows) = replicate 26 []"
    by (simp add: resultsOf_simps)
  then have "cachedHeroes (initializeHeroCache up s) = []"
    using assms by (simp only: initializeHeroCache_cache mergeAll_empties)
  with st have cache: "cachedHeroes ?s1 = []" by simp
  have log: "calls ?s1 = calls s @ map GetSearch lettersToFetch"
    using st by (simp add: initializeHeroCache_calls)
  have "filterByAlignment al [] = []"
    by (simp add: filterByAlignment_def split: option.splits)
  with cache have reply: "fst (listHeroes up al s) = OkHeroes []"
    using listHeroes_reply [of up al s] by simp
  have again: "calls (snd (listHeroes up al2 ?s1)) =
      calls s @ map GetSearch lettersToFetch @ map GetSearch lettersToFetch"
    using listHeroes_resweeps [OF cache, of up al2] log by simp
  from reply cache log again show ?thesis by blast
qed

text \<open>
  The theorem at a process start with the upstream service down.
\<close>

theorem total_outage_empty_list_witness:
  "cachedHeroes init = [] \<and>
   sweepReplies outage (length (calls init)) lettersToFetch = replicate 26 SearchThrows \<and>
   fst (listHeroes outage (Some ''good'') init) = OkHeroes [] \<and>
   cachedHeroes (snd (listHeroes outage (Some ''good'') init)) = [] \<and>
   calls (snd (listHeroes outage (Some ''good'') init)) = map GetSearch lettersToFetch \<and>
   calls (snd (listHeroes outage None (snd (listHeroes outage (Some ''good'') init)))) =
     map GetSearch lettersToFetch @ map GetSearch lettersToFetch"
proof -
  have a: "cachedHeroes init = []" by (simp add: init_def)
  have b: "sweepReplies outage (length (calls init)) lettersToFetch = replicate 26 SearchThrows"
    by code_simp
  have c: "calls init = []" by (simp add: init_def)
  note t = total_outage_empty_list [OF a b, of "Some ''good''" None]
  from t c have d: "calls (snd (listHeroes outage (Some ''good'') init)) =
      map GetSearch lettersToFetch"
    "calls (snd (listHeroes outage None (snd (listHeroes outage (Some ''good'') init)))) =
     map GetSearch lettersToFetch @ map GetSearch lettersToFetch"
    by simp_all
  with t a b show ?thesis by blast
qed

text \<open>
  Claim C9 as the spec states it, "the sweep still marks the Catalog Ready", fails: the
  source has no Ready flag, and after a sweep in which all 26 searches threw the guard at
  line 88 finds the cache empty again, so a second \<^verbatim>\<open>GET /api/heroes\<close> issues 26
  more searches.
\<close>

theorem total_outage_not_ready:
  "cachedHeroes init = [] \<and>
   sweepReplies outage (length (calls init)) lettersToFetch = replicate 26 SearchThrows \<and>
   listHeroes outage None init =
     (OkHeroes [], \<lparr>cachedHeroes = [], calls = map GetSearch lettersToFetch\<rparr>) \<and>
   calls (snd (listHeroes outage None (snd (listHeroes outage None init)))) =
     map GetSearch lettersToFetch @ map GetSearch lettersToFetch"
  by code_simp

section \<open>The queries\<close>

text \<open>
  Claim C5: \<^verbatim>\<open>GET /api/heroes\<close> answers with \<open>filterByAlignment\<close> of the cache.
  Without an alignment, or with the empty string, that is the whole cache. With a
  non-empty alignment it is the subsequence of the entries whose alignment, lower-cased,
  equals the requested value lower-cased (\<open>alignmentEqualsSpec\<close>); an entry whose
  alignment is missing or empty is never in it; and two requested values with the same
  lower-casing give the same result.
\<close>

theorem queryByAlignment_filter:
  "fst (listHeroes up al s) = OkHeroes (filterByAlignment al (cachedHeroes (snd (listHeroes up al s)))) \<and>
   filterByAlignment None cat = cat \<and>
   filterByAlignment (Some []) cat = cat \<and>
   (a \<noteq> [] \<longrightarrow> filterByAlignment (Some a) cat = filter (alignmentEqualsSpec a) cat) \<and>
   (a \<noteq> [] \<longrightarrow> alignment (biography h) = None \<or> alignment (biography h) = Some [] \<longrightarrow>
      h \<notin> set (filterByAlignment (Some a) cat)) \<and>
   (toLowerCase a = toLowerCase b \<longrightarrow>
      filterByAlignment (Some a) cat = filterByAlignment (Some b) cat)"
proof -
  have "a \<noteq> [] \<longrightarrow> alignment (biography h) = None \<or> alignment (biography h) = Some [] \<longrightarrow>
      h \<notin> set (filterByAlignment (Some a) cat)"
    using no_alignment_no_match [of h a] by (auto simp: filterByAlignment_def)
  moreover have "filterByAlignment None cat = cat" "filterByAlignment (Some []) cat = cat"
    by (simp_all add: filterByAlignment_def)
  ultimately show ?thesis
    using listHeroes_reply [of up al s] filterByAlignment_given [of a cat]
      filterByAlignment_lower [of a b cat]
    by blast
qed

text \<open>
  The theorem on a populated cache: "GOOD" selects what "good" selects, and the entry
  without an alignment is left out.
\<close>

theorem queryByAlignment_filter_witness:
  "''GOOD'' \<noteq> [] \<and> toLowerCase ''GOOD'' = toLowerCase ''good'' \<and>
   alignment (biography anonymous) = None \<and>
   filter (alignmentEqualsSpec ''GOOD'') (cachedHeroes gotham) = [batgirl, spiderMan] \<and>
   filterByAlignment (Some ''GOOD'') (cachedHeroes gotham) = [batgirl, spiderMan] \<and>
   filterByAlignment (Some ''good'') (cachedHeroes gotham) = [batgirl, spiderMan] \<and>
   anonymous \<notin> set (filterByAlignment (Some ''GOOD'') (cachedHeroes gotham)) \<and>
   fst (listHeroes healthy (Some ''GOOD'') gotham) = OkHeroes [batgirl, spiderMan]"
proof -
  have a: "''GOOD'' \<noteq> []" by simp
  have b: "toLowerCase ''GOOD'' = toLowerCase ''good''" by code_simp
  have c: "alignment (biography anonymous) = None" by (simp add: anonymous_def)
  have d: "filter (alignmentEqualsSpec ''GOOD'') (cachedHeroes gotham) = [batgirl, spiderMan]"
    by code_simp
  have e: "cachedHeroes (snd (listHeroes healthy (Some ''GOOD'') gotham)) = cachedHeroes gotham"
    by (simp add: listHeroes_state gotham_def)
  note t = queryByAlignment_filter
    [of healthy "Some ''GOOD''" gotham "cachedHeroes gotham" "''GOOD''" anonymous "''good''"]
  from t a have "filterByAlignment (Some ''GOOD'') (cachedHeroes gotham) =
      filter (alignmentEqualsSpec ''GOOD'') (cachedHeroes gotham)"
    by blast
  with d have f: "filterByAlignment (Some ''GOOD'') (cachedHeroes gotham) = [batgirl, spiderMan]"
    by simp
  from t b have "filterByAlignment (Some ''GOOD'') (cachedHeroes gotham) =
      filterByAlignment (Some ''good'') (cachedHeroes gotham)"
    by blast
  with f have g: "filterByAlignment (Some ''good'') (cachedHeroes gotham) = [batgirl, spiderMan]"
    by simp
  from t a c have h: "anonymous \<notin> set (filterByAlignment (Some ''GOOD'') (cachedHeroes gotham))"
    by blast
  from t have "fst (listHeroes healthy (Some ''GOOD'') gotham) =
      OkHeroes (filterByAlignment (Some ''GOOD'')
        (cachedHeroes (snd (listHeroes healthy (Some ''GOOD'') gotham))))"
    by blast
  with e f have i: "fst (listHeroes healthy (Some ''GOOD'') gotham) = OkHeroes [batgirl, spiderMan]"
    by simp
  from a b c d f g h i show ?thesis by blast
qed

text \<open>
  Claim C6: for a non-empty search text, \<^verbatim>\<open>GET /api/superhero\<close> answers with exactly
  the cache entries whose lower-cased name has the lower-cased text as a contiguous
  substring (\<open>sublist t s\<close> of the library: \<open>s = p @ t @ q\<close> for some \<open>p\<close> and
  \<open>q\<close>), in cache order, and with 404 when there is none. The state is unchanged.
\<close>

theorem searchByName_substring:
  "nm \<noteq> [] \<Longrightarrow>
     searchByName (Some nm) s =
       (if filter (\<lambda>h. sublist (toLowerCase nm) (toLowerCase (name h))) (cachedHeroes s) = []
        then Status404
        else OkHeroes
          (filter (\<lambda>h. sublist (toLowerCase nm) (toLowerCase (name h))) (cachedHeroes s)),
        s)"
  by (simp add: searchByName_def toLowerCase_Nil_iff includes_str_sublist Let_def)

text \<open>
  The theorem on a populated cache: "man" and "MAN" find Spider-Man and not Batgirl;
  "xyz" finds nothing.
\<close>

theorem searchByName_substring_witness:
  "''man'' \<noteq> [] \<and>
   sublist (toLowerCase ''man'') (toLowerCase (name spiderMan)) \<and>
   \<not> sublist (toLowerCase ''man'') (toLowerCase (name batgirl)) \<and>
   searchByName (Some ''man'') gotham = (OkHeroes [spiderMan], gotham) \<and>
   searchByName (Some ''MAN'') gotham = (OkHeroes [spiderMan], gotham) \<and>
   searchByName (Some ''xyz'') gotham = (Status404, gotham)"
proof -
  have a: "''man'' \<noteq> []" "''MAN'' \<noteq> []" "''xyz'' \<noteq> []" by simp_all
  have b: "sublist (toLowerCase ''man'') (toLowerCase (name spiderMan))"
    "\<not> sublist (toLowerCase ''man'') (toLowerCase (name batgirl))"
    by code_simp+
  have c: "filter (\<lambda>h. sublist (toLowerCase ''man'') (toLowerCase (name h))) (cachedHeroes gotham) =
      [spiderMan]"
    by code_simp
  have d: "filter (\<lambda>h. sublist (toLowerCase ''MAN'') (toLowerCase (name h))) (cachedHeroes gotham) =
      [spiderMan]"
    by code_simp
  have e: "filter (\<lambda>h. sublist (toLowerCase ''xyz'') (toLowerCase (name h))) (cachedHeroes gotham) =
      []"
    by code_simp
  from searchByName_substring [OF a(1), of gotham] c
  have f: "searchByName (Some ''man'') gotham = (OkHeroes [spiderMan], gotham)" by simp
  from searchByName_substring [OF a(2), of gotham] d
  have g: "searchByName (Some ''MAN'') gotham = (OkHeroes [spiderMan], gotham)" by simp
  from searchByName_substring [OF a(3), of gotham] e
  have h: "searchByName (Some ''xyz'') gotham = (Status404, gotham)" by simp
  from a b f g h show ?thesis by blast
qed

text \<open>
  Claim C7: with an empty name (or none) \<^verbatim>\<open>GET /api/superhero\<close> answers 400 in
  every state, so the answer does not depend on the cache, and it returns the state as it
  was: the cache is not changed and no upstream call is issued.
\<close>

theorem searchByName_empty_rejected:
  "searchByName (Some []) s = (Status400, s) \<and> searchByName None s = (Status400, s)"
  by (simp add: searchByName_def toLowerCase_def)

text \<open>
  The theorem on a populated process and at a process start.
\<close>

theorem searchByName_empty_rejected_witness:
  "searchByName (Some []) gotham = (Status400, gotham) \<and>
   searchByName None init = (Status400, init)"
  using searchByName_empty_rejected [of gotham] searchByName_empty_rejected [of init] by simp

text \<open>
  Claim C8, as the code has it. \<^verbatim>\<open>GET /api/superhero/:id\<close> never changes the cache,
  and neither its answer nor the upstream calls it issues depend on the cache. When an
  API key is configured it issues exactly one upstream lookup for the id, whatever the
  cache holds, and it answers 404 exactly when the upstream service reports no match.
  When no API key is configured it answers 500 and issues no upstream call.
\<close>

theorem getById_bypasses_catalog:
  "cachedHeroes (snd (getById apiKey up heroId s)) = cachedHeroes s \<and>
   fst (getById apiKey up heroId (s\<lparr>cachedHeroes := cat\<rparr>)) = fst (getById apiKey up heroId s) \<and>
   calls (snd (getById apiKey up heroId (s\<lparr>cachedHeroes := cat\<rparr>))) =
     calls (snd (getById apiKey up heroId s)) \<and>
   (truthy apiKey \<longrightarrow>
      calls (snd (getById apiKey up heroId s)) = calls s @ [GetHero heroId] \<and>
      (fst (getById apiKey up heroId s) = Status404 \<longleftrightarrow>
         reportsNoMatch (lookup_id up (length (calls s)) heroId))) \<and>
   (\<not> truthy apiKey \<longrightarrow> getById apiKey up heroId s = (Status500, s))"
  by (simp add: getById_def Let_def reportsNoMatch_def split: lookup_reply.splits option.splits)

text \<open>
  The theorem on a populated cache, for an id the service does not know, for one it
  knows, and without an API key.
\<close>

theorem getById_bypasses_catalog_witness:
  "truthy (Some ''key'') \<and>
   calls (snd (getById (Some ''key'') healthy ''621'' gotham)) = calls gotham @ [GetHero ''621''] \<and>
   cachedHeroes (snd (getById (Some ''key'') healthy ''621'' gotham)) = cachedHeroes gotham \<and>
   reportsNoMatch (lookup_id healthy (length (calls gotham)) ''621'') \<and>
   fst (getById (Some ''key'') healthy ''621'' gotham) = Status404 \<and>
   \<not> reportsNoMatch (lookup_id healthy (length (calls gotham)) ''620'') \<and>
   fst (getById (Some ''key'') healthy ''620'' gotham) \<noteq> Status404 \<and>
   \<not> truthy None \<and> getById None healthy ''621'' gotham = (Status500, gotham)"
proof -
  have a: "truthy (Some ''key'')" "\<not> truthy None" by (simp_all add: truthy_def)
  have b: "reportsNoMatch (lookup_id healthy (length (calls gotham)) ''621'')"
    "\<not> reportsNoMatch (lookup_id healthy (length (calls gotham)) ''620'')"
    by code_simp+
  note t1 = getById_bypasses_catalog [of "Some ''key''" healthy "''621''" gotham "[]"]
  note t2 = getById_bypasses_catalog [of "Some ''key''" healthy "''620''" gotham "[]"]
  note t3 = getById_bypasses_catalog [of None healthy "''621''" gotham "[]"]
  from t1 a(1) b(1)
  have c: "calls (snd (getById (Some ''key'') healthy ''621'' gotham)) =
      calls gotham @ [GetHero ''621'']"
    "cachedHeroes (snd (getById (Some ''key'') healthy ''621'' gotham)) = cachedHeroes gotham"
    "fst (getById (Some ''key'') healthy ''621'' gotham) = Status404"
    by blast+
  from t2 a(1) b(2)
  have d: "fst (getById (Some ''key'') healthy ''620'' gotham) \<noteq> Status404" by blast
  from t3 a(2)
  have e: "getById None healthy ''621'' gotham = (Status500, gotham)" by blast
  from a b c d e show ?thesis by blast
qed

text \<open>
  Claim C8 as the spec states it, "for every id an upstream call is issued", fails when
  the API key is unset: the handler returns at its guard (line 134) and the service, which
  knows the id 620, is never asked.
\<close>

theorem getById_without_key:
  "getById None healthy ''620'' gotham = (Status500, gotham) \<and>
   lookup_id healthy (length (calls gotham)) ''620'' = LookupData (Some spiderManBody)"
  by code_simp

text \<open>
  Claim C10: \<^verbatim>\<open>GET /api/heroes\<close> does not validate the alignment. For every
  non-empty alignment string, in particular for every one outside good, bad and neutral,
  it answers 200 with the cache entries whose alignment equals that string
  case-insensitively. The empty string is the omitted alignment: the request is handled
  exactly as one without an alignment and answers with the whole cache. For no alignment
  at all does the handler answer 400 or 500.
\<close>

theorem listHeroes_no_validation:
  "(a \<noteq> [] \<longrightarrow>
      fst (listHeroes up (Some a) s) =
        OkHeroes (filter (alignmentEqualsSpec a) (cachedHeroes (snd (listHeroes up (Some a) s))))) \<and>
   listHeroes up (Some []) s = listHeroes up None s \<and>
   fst (listHeroes up None s) = OkHeroes (cachedHeroes (snd (listHeroes up None s))) \<and>
   fst (listHeroes up al s) \<noteq> Status400 \<and>
   fst (listHeroes up al s) \<noteq> Status500"
  by (simp add: listHeroes_reply filterByAlignment_given listHeroes_empty_is_omitted)
     (simp add: filterByAlignment_def)

text \<open>
  The theorem on a populated cache, for the alignments "-" (which one record carries)
  and "evil" (which none does), both outside good, bad and neutral.
\<close>

theorem listHeroes_no_validation_witness:
  "''-'' \<noteq> [] \<and> ''-'' \<notin> {''good'', ''bad'', ''neutral''} \<and>
   ''evil'' \<noteq> [] \<and> ''evil'' \<notin> {''good'', ''bad'', ''neutral''} \<and>
   fst (listHeroes healthy (Some ''-'') gotham) = OkHeroes [stranger] \<and>
   fst (listHeroes healthy (Some ''evil'') gotham) = OkHeroes []"
proof -
  have a: "''-'' \<noteq> []" "''evil'' \<noteq> []" by simp_all
  have b: "''-'' \<notin> {''good'', ''bad'', ''neutral''}" "''evil'' \<notin> {''good'', ''bad'', ''neutral''}"
    by simp_all
  have c: "filter (alignmentEqualsSpec ''-'')
      (cachedHeroes (snd (listHeroes healthy (Some ''-'') gotham))) = [stranger]"
    by code_simp
  have d: "filter (alignmentEqualsSpec ''evil'')
      (cachedHeroes (snd (listHeroes healthy (Some ''evil'') gotham))) = []"
    by code_simp
  from listHeroes_no_validation [of "''-''" healthy gotham None] a(1)
  have "fst (listHeroes healthy (Some ''-'') gotham) =
      OkHeroes (filter (alignmentEqualsSpec ''-'')
        (cachedHeroes (snd (listHeroes healthy (Some ''-'') gotham))))"
    by blast
  with c have e: "fst (listHeroes healthy (Some ''-'') gotham) = OkHeroes [stranger]" by simp
  from listHeroes_no_validation [of "''evil''" healthy gotham None] a(2)
  have "fst (listHeroes healthy (Some ''evil'') gotham) =
      OkHeroes (filter (alignmentEqualsSpec ''evil'')
        (cachedHeroes (snd (listHeroes healthy (Some ''evil'') gotham))))"
    by blast
  with d have f: "fst (listHeroes healthy (Some ''evil'') gotham) = OkHeroes []" by simp
  from a b e f show ?thesis by blast
qed

end
